theory Spec2Isabelle
  imports Main
begin

section \<open>Values of the host language\<close>

text \<open>
  The plugin is the single class \<open>FirefoxKeywordBookmarks\<close> of \<open>Plugin/core.py\<close>.
  A column of a row that the \<open>sqlite3\<close> module returns is \<open>None\<close>, an \<open>int\<close> or a
  \<open>str\<close> (columns of type REAL and BLOB are left out: the tables read here,
  \<open>moz_keywords\<close> and \<open>moz_places\<close>, hold integers and text). A Python string is
  modelled as a list of characters.
\<close>

datatype sqlval = SNull | SInt int | SText string

type_synonym row = "sqlval list"

text \<open>
  The exceptions that can leave \<open>get_bookmarks\<close>: \<open>sqlite3.OperationalError\<close>
  (the only class the query handler catches), any other \<open>sqlite3.DatabaseError\<close>
  (it is the parent class of \<open>OperationalError\<close>, so the handler does not catch it),
  and the \<open>IndexError\<close> of an index out of range.
\<close>

datatype pyexn = OperationalError | DatabaseError | IndexError

text \<open>\<open>str(n)\<close> for an integer, as the f-string of line 47 formats a column.\<close>

fun str_nat :: "nat \<Rightarrow> string" where
  "str_nat n =
     (if n < 10 then [''0123456789'' ! n]
      else str_nat (n div 10) @ [''0123456789'' ! (n mod 10)])"

declare str_nat.simps [simp del]

definition str_int :: "int \<Rightarrow> string" where
  "str_int i = (if i < 0 then CHR ''-'' # str_nat (nat (- i)) else str_nat (nat i))"

fun py_str :: "sqlval \<Rightarrow> string" where
  "py_str SNull = ''None''"
| "py_str (SInt i) = str_int i"
| "py_str (SText s) = s"

section \<open>Result options, actions and context data\<close>

text \<open>
  \<open>Action(f, args)\<close> pairs a method of the plugin (or of the host's API) with its
  arguments; one constructor for each method the source wraps.
\<close>

datatype action =
    Action_open_url "string option" string sqlval
  | Action_open_settings_menu
  | Action_api_open_url string
  | Action_copy_text sqlval
  | Action_reload_cache string "string option"
  | Action_open_log_file_folder

text \<open>
  The two shapes of \<open>context_data\<close> the source builds: the one-element list
  \<open>["NO_PROFILE_DATA_PATH_ERROR"]\<close> (line 86) and the list
  \<open>[profile_path, firefox_fp, {"keyword": keyword, "url": url}]\<close> (lines 57-61).
\<close>

datatype context_data =
    NO_PROFILE_DATA_PATH_ERROR
  | Bookmark_context string "string option" string sqlval

text \<open>
  \<open>flowpy.Option\<close>, with the fields the source sets; a field it leaves out is
  \<open>None\<close>. The subtitle of a bookmark is column 1 of its place row, whatever its type.
\<close>

record Option_rec =
  title :: string
  sub :: "sqlval option"
  icon :: "string option"
  action :: "action option"
  context_data :: "context_data option"

datatype execute_response = ExecuteResponse bool

section \<open>The profile store\<close>

text \<open>
  What the SQLite engine answers is a parameter of the model. An opened store gives the
  result of \<open>SELECT * FROM moz_keywords\<close> (\<open>fetchall\<close>: the rows, or an exception)
  and, for every place id, the result of \<open>SELECT * FROM moz_places WHERE id = ?\<close>
  (\<open>fetchone\<close>: a row, \<open>None\<close>, or an exception). The file system maps the directory
  handed to \<open>os.path.join(profile_path, "places.sqlite")\<close> to the store found there, or
  to the exception that \<open>sqlite3.connect\<close> raises.
\<close>

record store =
  moz_keywords :: "pyexn + row list"
  moz_places :: "sqlval \<Rightarrow> pyexn + row option"

type_synonym filesystem = "string \<Rightarrow> pyexn + store"

type_synonym bookmarks = "string \<rightharpoonup> Option_rec"

section \<open>get-bookmarks: reading one profile\<close>

text \<open>
  Lines 33-37: \<open>profile_path[1]\<close> raises \<open>IndexError\<close> on a string of fewer than
  two characters; otherwise the result is the prefix and the path that is opened.
\<close>

definition split_prefix :: "string \<Rightarrow> pyexn + string \<times> string" where
  "split_prefix profile_path =
     (if length profile_path < 2 then Inl IndexError
      else if profile_path ! 1 = CHR ''|''
        then Inr ([profile_path ! 0], drop 2 profile_path)
        else Inr ([], profile_path))"

text \<open>Lines 53-63: the option stored for one keyword.\<close>

definition bookmark_option ::
  "string option \<Rightarrow> string \<Rightarrow> string \<Rightarrow> sqlval \<Rightarrow> Option_rec" where
  "bookmark_option firefox_fp profile_path keyword url =
     \<lparr> title = keyword,
       sub = Some url,
       icon = Some ''Images/app.png'',
       action = Some (Action_open_url firefox_fp profile_path url),
       context_data = Some (Bookmark_context profile_path firefox_fp keyword url) \<rparr>"

text \<open>
  Lines 45-63, the body of the loop for one keyword row: the key and the option it
  stores in \<open>final\<close> (\<open>Some\<close>), nothing (\<open>None\<close>), or the exception it
  raises. \<open>if keyword_data\<close> and \<open>if place\<close> are Python's truth tests: a tuple is
  false when it is empty, and \<open>None\<close> is false. \<open>keyword_data[2]\<close> is read before
  \<open>keyword_data[1]\<close>, and \<open>place[1]\<close> after the place was found.
\<close>

definition row_entry ::
  "store \<Rightarrow> string \<Rightarrow> string \<Rightarrow> string option \<Rightarrow> row
     \<Rightarrow> pyexn + (string \<times> Option_rec) option" where
  "row_entry con prefix profile_path firefox_fp keyword_data =
     (if keyword_data = [] then Inr None
      else if length keyword_data < 3 then Inl IndexError
      else
        (case moz_places con (keyword_data ! 2) of
           Inl e \<Rightarrow> Inl e
         | Inr None \<Rightarrow> Inr None
         | Inr (Some place) \<Rightarrow>
             if place = [] then Inr None
             else if length place < 2 then Inl IndexError
             else Inr (Some (prefix @ py_str (keyword_data ! 1),
                    bookmark_option firefox_fp profile_path
                      (prefix @ py_str (keyword_data ! 1)) (place ! 1)))))"

text \<open>Lines 43-63, the loop over the rows, with \<open>final\<close> the dictionary built so far.\<close>

fun scan_rows ::
  "store \<Rightarrow> string \<Rightarrow> string \<Rightarrow> string option \<Rightarrow> row list \<Rightarrow> bookmarks
     \<Rightarrow> pyexn + bookmarks" where
  "scan_rows con prefix profile_path firefox_fp [] final = Inr final"
| "scan_rows con prefix profile_path firefox_fp (keyword_data # rows) final =
     (case row_entry con prefix profile_path firefox_fp keyword_data of
        Inl e \<Rightarrow> Inl e
      | Inr None \<Rightarrow> scan_rows con prefix profile_path firefox_fp rows final
      | Inr (Some (keyword, opt)) \<Rightarrow>
          scan_rows con prefix profile_path firefox_fp rows (final(keyword \<mapsto> opt)))"

text \<open>
  Lines 27-65. The value is what the method returns (\<open>Inr\<close>) or the exception that
  leaves it (\<open>Inl\<close>). The log line of line 30 is written by the callers below.
\<close>

definition get_bookmarks ::
  "filesystem \<Rightarrow> string \<Rightarrow> string option \<Rightarrow> pyexn + bookmarks" where
  "get_bookmarks fs profile_path firefox_fp =
     (case split_prefix profile_path of
        Inl e \<Rightarrow> Inl e
      | Inr (prefix, path) \<Rightarrow>
          (case fs path of
             Inl e \<Rightarrow> Inl e
           | Inr con \<Rightarrow>
               (case moz_keywords con of
                  Inl e \<Rightarrow> Inl e
                | Inr rows \<Rightarrow> scan_rows con prefix path firefox_fp rows Map.empty)))"

section \<open>The plugin: cache, query handler, reload\<close>

text \<open>
  \<open>self.cache\<close> is \<open>None\<close> (not loaded) or a dictionary (loaded, maybe empty).
  \<open>getting_log\<close> lists the arguments of the calls of \<open>get_bookmarks\<close> so far, in
  order: the lines "Getting bookmarks for ..." that line 30 writes to the log.
\<close>

record plugin =
  cache :: "bookmarks option"
  getting_log :: "string list"

definition init :: plugin where
  "init = \<lparr> cache = None, getting_log = [] \<rparr>"

text \<open>
  The two settings read per query (lines 72-79); \<open>None\<close> stands for
  \<open>SettingNotFound\<close>.
\<close>

record settings =
  profile_path_data :: "string option"
  firefox_fp :: "string option"

text \<open>
  \<open>profile_path_data.split("\r\n")\<close>: the pieces between the occurrences of the two
  characters CR LF, found from left to right; the empty string gives one empty piece.
\<close>

definition CR :: char where "CR = CHR 0x0D"
definition LF :: char where "LF = CHR 0x0A"

fun cons_first :: "char \<Rightarrow> string list \<Rightarrow> string list" where
  "cons_first c [] = [[c]]"
| "cons_first c (p # ps) = (c # p) # ps"

fun split_crlf :: "string \<Rightarrow> string list" where
  "split_crlf [] = [[]]"
| "split_crlf [c] = [[c]]"
| "split_crlf (c # d # cs) =
     (if c = CR \<and> d = LF then [] # split_crlf cs
      else cons_first c (split_crlf (d # cs)))"

text \<open>The two error options of the query handler (lines 83-87 and 98-102).\<close>

definition no_profile_option :: Option_rec where
  "no_profile_option =
     \<lparr> title = ''Error: No profile data path given'',
       sub = Some (SText ''Open context menu for more options''),
       icon = None,
       action = None,
       context_data = Some NO_PROFILE_DATA_PATH_ERROR \<rparr>"

definition unable_option :: "string \<Rightarrow> Option_rec" where
  "unable_option path =
     \<lparr> title = ''Error: Unable to open profile database file. Profile: '' @ path,
       sub = Some (SText
         ''Are you sure the profile exists and is correct? Click this to open settings menu.''),
       icon = Some ''Images/app.png'',
       action = Some Action_open_settings_menu,
       context_data = None \<rparr>"

text \<open>
  How the loop of lines 92-103 ends: it runs to its end with the dictionary built
  (\<open>Loaded\<close>); or \<open>get_bookmarks\<close> raised \<open>OperationalError\<close> at a path, the
  handler set \<open>self.cache = None\<close> and returns the error option (\<open>Failed\<close>); or
  another exception leaves the handler, with \<open>self.cache\<close> the dictionary built so
  far (\<open>Escaped\<close>). The second component lists the paths \<open>get_bookmarks\<close> was called on.
\<close>

datatype load_result = Loaded bookmarks | Failed string | Escaped pyexn bookmarks

fun load_loop ::
  "filesystem \<Rightarrow> string option \<Rightarrow> string list \<Rightarrow> bookmarks \<Rightarrow> load_result \<times> string list" where
  "load_loop fs fp [] c = (Loaded c, [])"
| "load_loop fs fp (path # paths) c =
     (case get_bookmarks fs path fp of
        Inr bm \<Rightarrow>
          (case load_loop fs fp paths (c ++ bm) of (r, tried) \<Rightarrow> (r, path # tried))
      | Inl e \<Rightarrow>
          if e = OperationalError then (Failed path, [path]) else (Escaped e c, [path]))"

text \<open>
  Lines 105-109: \<open>self.cache.get(query)\<close>, then \<open>if opt\<close>. An \<open>Option\<close> object
  is taken to be true, as a Python object is unless its class says otherwise.
\<close>

definition lookup :: "bookmarks \<Rightarrow> string \<Rightarrow> Option_rec list" where
  "lookup c query = (case c query of None \<Rightarrow> [] | Some opt \<Rightarrow> [opt])"

text \<open>
  The query handler \<open>__call__\<close> (lines 67-109): the options it returns (\<open>Inr\<close>) or
  the exception that leaves it (\<open>Inl\<close>), and the plugin afterwards.
\<close>

definition call ::
  "filesystem \<Rightarrow> string \<Rightarrow> settings \<Rightarrow> plugin \<Rightarrow> (pyexn + Option_rec list) \<times> plugin" where
  "call fs query st self =
     (case profile_path_data st of
        None \<Rightarrow> (Inr [no_profile_option], self)
      | Some d \<Rightarrow>
          if d = [] then (Inr [no_profile_option], self)
          else
            (case cache self of
               Some c \<Rightarrow> (Inr (lookup c query), self)
             | None \<Rightarrow>
                 (case load_loop fs (firefox_fp st) (split_crlf d) Map.empty of
                    (Loaded c, tried) \<Rightarrow>
                      (Inr (lookup c query),
                       \<lparr> cache = Some c, getting_log = getting_log self @ tried \<rparr>)
                  | (Failed path, tried) \<Rightarrow>
                      (Inr [unable_option path],
                       \<lparr> cache = None, getting_log = getting_log self @ tried \<rparr>)
                  | (Escaped e c, tried) \<Rightarrow>
                      (Inl e,
                       \<lparr> cache = Some c, getting_log = getting_log self @ tried \<rparr>))))"

text \<open>
  \<open>reload_cache\<close> (lines 166-173): the assignment happens only when
  \<open>get_bookmarks\<close> returns; an exception leaves the method and \<open>self.cache\<close> as it was.
\<close>

definition reload_cache ::
  "filesystem \<Rightarrow> string \<Rightarrow> string option \<Rightarrow> plugin \<Rightarrow> (pyexn + execute_response) \<times> plugin" where
  "reload_cache fs path fp self =
     (case get_bookmarks fs path fp of
        Inl e \<Rightarrow> (Inl e, self\<lparr> getting_log := getting_log self @ [path] \<rparr>)
      | Inr bm \<Rightarrow>
          (Inr (ExecuteResponse False),
           \<lparr> cache = Some bm, getting_log = getting_log self @ [path] \<rparr>))"

text \<open>
  \<open>context_menu\<close> (lines 111-156) on the two shapes of context data. The copy options
  come from the dictionary \<open>{"keyword": keyword, "url": url}\<close>, whose keys
  \<open>str.title\<close> turns into \<open>Keyword\<close> and \<open>Url\<close>; the positional arguments of
  \<open>Option\<close> are taken to be title, subtitle and icon, in this order.
\<close>

fun context_menu :: "context_data \<Rightarrow> Option_rec list" where
  "context_menu NO_PROFILE_DATA_PATH_ERROR =
     [ \<lparr> title = ''Open Settings Menu'', sub = None, icon = None,
         action = Some Action_open_settings_menu, context_data = None \<rparr>,
       \<lparr> title = ''Open Guide'', sub = None, icon = None,
         action = Some (Action_api_open_url
           ''https://github.com/cibere/Flow.Launcher.Plugin.FirefoxKeywordBookmarks?tab=readme-ov-file#how-to-get-profile-data-path''),
         context_data = None \<rparr> ]"
| "context_menu (Bookmark_context profile_path fp keyword url) =
     [ \<lparr> title = ''Reload Cache'', sub = None, icon = Some ''Images/app.png'',
         action = Some (Action_reload_cache profile_path fp), context_data = None \<rparr>,
       \<lparr> title = ''Open log file'',
         sub = Some (SText ''Open FirefoxKeywordBookmarks.log in explorer''),
         icon = Some ''Images/app.png'',
         action = Some Action_open_log_file_folder, context_data = None \<rparr>,
       \<lparr> title = ''Copy Keyword'', sub = Some (SText keyword),
         icon = Some ''Images/app.png'',
         action = Some (Action_copy_text (SText keyword)), context_data = None \<rparr>,
       \<lparr> title = ''Copy Url'', sub = Some url, icon = Some ''Images/app.png'',
         action = Some (Action_copy_text url), context_data = None \<rparr> ]"

section \<open>Vocabulary of the properties\<close>

text \<open>
  A keyword row has its place found when the query for its place id returns a row that
  Python takes as true. \<open>record_of prefix k\<close> holds of a row with the columns the loop
  reads whose keyword, prefixed, is \<open>k\<close>.
\<close>

definition place_found :: "store \<Rightarrow> row \<Rightarrow> bool" where
  "place_found con keyword_data =
     (case moz_places con (keyword_data ! 2) of
        Inr (Some place) \<Rightarrow> place \<noteq> []
      | _ \<Rightarrow> False)"

definition record_of :: "string \<Rightarrow> string \<Rightarrow> row \<Rightarrow> bool" where
  "record_of prefix k keyword_data =
     (3 \<le> length keyword_data \<and> prefix @ py_str (keyword_data ! 1) = k)"

text \<open>
  The store that a configured profile string names contains a keyword record whose full
  keyword is \<open>k\<close>; and the same with the place of the record found.
\<close>

definition has_record :: "filesystem \<Rightarrow> string \<Rightarrow> string \<Rightarrow> bool" where
  "has_record fs spec k =
     (case split_prefix spec of
        Inl e \<Rightarrow> False
      | Inr (prefix, path) \<Rightarrow>
          (case fs path of
             Inl e \<Rightarrow> False
           | Inr con \<Rightarrow>
               (case moz_keywords con of
                  Inl e \<Rightarrow> False
                | Inr rows \<Rightarrow> list_ex (record_of prefix k) rows)))"

definition has_resolved_record :: "filesystem \<Rightarrow> string \<Rightarrow> string \<Rightarrow> bool" where
  "has_resolved_record fs spec k =
     (case split_prefix spec of
        Inl e \<Rightarrow> False
      | Inr (prefix, path) \<Rightarrow>
          (case fs path of
             Inl e \<Rightarrow> False
           | Inr con \<Rightarrow>
               (case moz_keywords con of
                  Inl e \<Rightarrow> False
                | Inr rows \<Rightarrow>
                    list_ex (\<lambda>kd. record_of prefix k kd \<and> place_found con kd) rows)))"

text \<open>
  The entries a store gives, in the order of its rows: one for each row whose place is
  found, its key the prefixed keyword and its subtitle column 1 of the place row.
\<close>

definition row_url :: "store \<Rightarrow> row \<Rightarrow> sqlval" where
  "row_url con keyword_data =
     (case moz_places con (keyword_data ! 2) of
        Inr (Some place) \<Rightarrow> place ! 1
      | _ \<Rightarrow> SNull)"

definition entries ::
  "store \<Rightarrow> string \<Rightarrow> string \<Rightarrow> string option \<Rightarrow> row list \<Rightarrow> (string \<times> Option_rec) list" where
  "entries con prefix path fp rows =
     map (\<lambda>kd. (prefix @ py_str (kd ! 1),
                bookmark_option fp path (prefix @ py_str (kd ! 1)) (row_url con kd)))
       (filter (place_found con) rows)"

text \<open>
  A row as the tables of a profile give it: at least the three columns the loop reads,
  a place query that does not raise, and a place row of at least two columns.
\<close>

definition well_formed_row :: "store \<Rightarrow> row \<Rightarrow> bool" where
  "well_formed_row con keyword_data =
     (3 \<le> length keyword_data \<and>
      (case moz_places con (keyword_data ! 2) of
         Inl e \<Rightarrow> False
       | Inr None \<Rightarrow> True
       | Inr (Some place) \<Rightarrow> 2 \<le> length place))"



text \<open>
  Observations: the entry \<open>get_bookmarks\<close> returns under a key, and the entry the
  cache of a plugin holds under a key (\<open>None\<close> when the cache is not loaded).
\<close>

definition get_entry ::
  "filesystem \<Rightarrow> string \<Rightarrow> string option \<Rightarrow> string \<Rightarrow> pyexn + Option_rec option" where
  "get_entry fs spec fp k =
     (case get_bookmarks fs spec fp of Inl e \<Rightarrow> Inl e | Inr bm \<Rightarrow> Inr (bm k))"

definition cached :: "plugin \<Rightarrow> string \<Rightarrow> Option_rec option option" where
  "cached self k = (case cache self of None \<Rightarrow> None | Some c \<Rightarrow> Some (c k))"

text \<open>
  The invariant of the cache: every entry is stored under its own title, and its
  subtitle is the URL that its action and its context data carry.
\<close>

definition entry_ok :: "string \<Rightarrow> Option_rec \<Rightarrow> bool" where
  "entry_ok k opt =
     (title opt = k \<and>
      (case context_data opt of
         Some (Bookmark_context path fp k' url) \<Rightarrow>
           k' = k \<and> sub opt = Some url \<and> action opt = Some (Action_open_url fp path url)
       | _ \<Rightarrow> False))"

definition cache_inv :: "bookmarks option \<Rightarrow> bool" where
  "cache_inv c =
     (case c of None \<Rightarrow> True | Some m \<Rightarrow> \<forall>k opt. m k = Some opt \<longrightarrow> entry_ok k opt)"

text \<open>
  A sequence of queries, each with the settings read for it; and the profile strings
  that \<open>get_bookmarks\<close> reads without raising.
\<close>

fun calls :: "filesystem \<Rightarrow> (string \<times> settings) list \<Rightarrow> plugin \<Rightarrow> plugin" where
  "calls fs [] self = self"
| "calls fs ((q, st) # rest) self = calls fs rest (snd (call fs q st self))"

definition loads :: "filesystem \<Rightarrow> string option \<Rightarrow> string \<Rightarrow> bool" where
  "loads fs fp spec = (\<not> isl (get_bookmarks fs spec fp))"

section \<open>A file system and the scenarios\<close>

text \<open>
  Two sound profiles (\<open>/a\<close> defines \<open>mail\<close> and \<open>go\<close>, \<open>/b\<close> defines
  \<open>mail\<close>), one whose only keyword points to no place, one with an empty keyword, one
  whose keyword table has two columns, one without keywords, a file that is not a
  database, and no store anywhere else.
\<close>

definition place_a :: "sqlval \<Rightarrow> pyexn + row option" where
  "place_a place_id =
     (if place_id = SInt 7 then Inr (Some [SInt 7, SText ''https://mail.a.com/'', SText ''Mail A''])
      else if place_id = SInt 8 then Inr (Some [SInt 8, SText ''https://go.a.com/'', SNull])
      else Inr None)"

definition store_a :: store where
  "store_a =
     \<lparr> moz_keywords = Inr [[SInt 1, SText ''mail'', SInt 7, SNull],
                           [SInt 2, SText ''go'', SInt 8, SNull]],
       moz_places = place_a \<rparr>"

definition place_b :: "sqlval \<Rightarrow> pyexn + row option" where
  "place_b place_id =
     (if place_id = SInt 3 then Inr (Some [SInt 3, SText ''https://mail.b.com/'', SNull])
      else Inr None)"

definition store_b :: store where
  "store_b =
     \<lparr> moz_keywords = Inr [[SInt 1, SText ''mail'', SInt 3, SNull]],
       moz_places = place_b \<rparr>"

definition store_dangling :: store where
  "store_dangling =
     \<lparr> moz_keywords = Inr [[SInt 1, SText ''go'', SInt 99, SNull]],
       moz_places = place_b \<rparr>"

definition store_empty_keyword :: store where
  "store_empty_keyword =
     \<lparr> moz_keywords = Inr [[SInt 1, SText '''', SInt 3, SNull]],
       moz_places = place_b \<rparr>"

definition store_two_columns :: store where
  "store_two_columns =
     \<lparr> moz_keywords = Inr [[SInt 1, SText ''go'']],
       moz_places = place_b \<rparr>"

definition store_no_rows :: store where
  "store_no_rows = \<lparr> moz_keywords = Inr [], moz_places = place_b \<rparr>"

definition demo_fs :: filesystem where
  "demo_fs path =
     (if path = ''/a'' then Inr store_a
      else if path = ''/b'' then Inr store_b
      else if path = ''/dangling'' then Inr store_dangling
      else if path = ''/emptykw'' then Inr store_empty_keyword
      else if path = ''/twocols'' then Inr store_two_columns
      else if path = ''/norows'' then Inr store_no_rows
      else if path = ''/notadb'' then Inl DatabaseError
      else Inl OperationalError)"

text \<open>
  The same file system while the browser holds the store of \<open>/a\<close> locked:
  opening it raises \<open>OperationalError\<close> (database is locked).
\<close>

definition locked_fs :: filesystem where
  "locked_fs path = (if path = ''/a'' then Inl OperationalError else demo_fs path)"

text \<open>
  Settings of two lines, and the states the scenarios below pass through.
\<close>

definition lines2 :: "string \<Rightarrow> string \<Rightarrow> string" where
  "lines2 l1 l2 = l1 @ [CR, LF] @ l2"

definition mail_profiles :: settings where
  "mail_profiles = \<lparr> profile_path_data = Some (lines2 ''/a'' ''w|/b''), firefox_fp = None \<rparr>"

definition prefixed_profiles :: settings where
  "prefixed_profiles =
     \<lparr> profile_path_data = Some (lines2 ''A|/a'' ''B|/b''), firefox_fp = None \<rparr>"

definition broken_second :: settings where
  "broken_second =
     \<lparr> profile_path_data = Some (lines2 ''/a'' ''/notadb''), firefox_fp = None \<rparr>"

definition trailing_newline :: settings where
  "trailing_newline = \<lparr> profile_path_data = Some (lines2 ''/a'' ''''), firefox_fp = None \<rparr>"

definition no_rows_profile :: settings where
  "no_rows_profile = \<lparr> profile_path_data = Some ''/norows'', firefox_fp = None \<rparr>"

definition loaded_empty :: plugin where
  "loaded_empty = snd (call demo_fs ''go'' no_rows_profile init)"

definition after_load :: plugin where
  "after_load = snd (call demo_fs ''Amail'' prefixed_profiles init)"

definition after_reload :: plugin where
  "after_reload = snd (reload_cache demo_fs ''/a'' None after_load)"

lemmas demo_defs = demo_fs_def store_a_def store_b_def place_a_def place_b_def
  store_dangling_def store_empty_keyword_def store_two_columns_def store_no_rows_def
  lines2_def CR_def LF_def locked_fs_def

lemmas eval_defs = call_def reload_cache_def get_bookmarks_def split_prefix_def
  row_entry_def lookup_def get_entry_def cached_def init_def bookmark_option_def
  unable_option_def

lemmas scenario_defs = mail_profiles_def prefixed_profiles_def after_load_def
  after_reload_def broken_second_def trailing_newline_def no_rows_profile_def
  loaded_empty_def

section \<open>Reading one profile\<close>

lemma row_entry_None:
  "row_entry con prefix path fp kd = Inr None \<Longrightarrow> \<not> (3 \<le> length kd \<and> place_found con kd)"
  by (auto simp: row_entry_def place_found_def split: if_splits sum.splits option.splits)

lemma row_entry_Some:
  "row_entry con prefix path fp kd = Inr (Some (k, opt)) \<Longrightarrow>
     3 \<le> length kd \<and> place_found con kd \<and> k = prefix @ py_str (kd ! 1)
     \<and> (\<exists>place. moz_places con (kd ! 2) = Inr (Some place) \<and> 2 \<le> length place
           \<and> opt = bookmark_option fp path k (place ! 1))"
  by (auto simp: row_entry_def place_found_def split: if_splits sum.splits option.splits)

lemma scan_rows_defined:
  "scan_rows con prefix path fp rows final = Inr bm \<Longrightarrow>
     (bm k \<noteq> None) =
       (final k \<noteq> None \<or> list_ex (\<lambda>kd. record_of prefix k kd \<and> place_found con kd) rows)"
proof (induction rows arbitrary: final)
  case Nil
  then show ?case by simp
next
  case (Cons kd rows)
  show ?case
  proof (cases "row_entry con prefix path fp kd")
    case (Inl e)
    with Cons.prems show ?thesis by simp
  next
    case (Inr r)
    show ?thesis
    proof (cases r)
      case None
      with Inr Cons.prems have "scan_rows con prefix path fp rows final = Inr bm" by simp
      from Cons.IH [OF this] row_entry_None [of con prefix path fp kd] Inr None
      show ?thesis by (auto simp: record_of_def)
    next
      case (Some kv)
      obtain k' opt where kv: "kv = (k', opt)" by (cases kv)
      with Inr Some Cons.prems
      have "scan_rows con prefix path fp rows (final(k' \<mapsto> opt)) = Inr bm" by simp
      from Cons.IH [OF this] row_entry_Some [of con prefix path fp kd k' opt] Inr Some kv
      show ?thesis by (auto simp: record_of_def)
    qed
  qed
qed

lemma get_bookmarks_Inr:
  assumes "get_bookmarks fs spec fp = Inr bm"
  obtains prefix path con rows where
    "split_prefix spec = Inr (prefix, path)" "fs path = Inr con"
    "moz_keywords con = Inr rows"
    "scan_rows con prefix path fp rows Map.empty = Inr bm"
  using assms by (auto simp: get_bookmarks_def split: sum.splits prod.splits)

lemma get_bookmarks_defined:
  assumes "get_bookmarks fs spec fp = Inr bm"
  shows "(bm k \<noteq> None) = has_resolved_record fs spec k"
proof -
  from assms obtain prefix path con rows where
    sp: "split_prefix spec = Inr (prefix, path)" and con: "fs path = Inr con"
    and rows: "moz_keywords con = Inr rows"
    and scan: "scan_rows con prefix path fp rows Map.empty = Inr bm"
    by (rule get_bookmarks_Inr)
  from scan_rows_defined [OF scan, of k] sp con rows show ?thesis
    by (simp add: has_resolved_record_def)
qed

lemma scan_rows_entry:
  "scan_rows con prefix path fp rows final = Inr bm \<Longrightarrow> bm k = Some opt \<Longrightarrow>
     final k = Some opt \<or>
     (\<exists>kd \<in> set rows. \<exists>place. record_of prefix k kd
        \<and> moz_places con (kd ! 2) = Inr (Some place) \<and> 2 \<le> length place
        \<and> opt = bookmark_option fp path k (place ! 1))"
proof (induction rows arbitrary: final)
  case Nil
  then show ?case by simp
next
  case (Cons kd rows)
  show ?case
  proof (cases "row_entry con prefix path fp kd")
    case (Inl e)
    with Cons.prems show ?thesis by simp
  next
    case (Inr r)
    show ?thesis
    proof (cases r)
      case None
      with Inr Cons.prems have "scan_rows con prefix path fp rows final = Inr bm" by simp
      from Cons.IH [OF this Cons.prems(2)] show ?thesis by auto
    next
      case (Some kv)
      obtain k' opt' where kv: "kv = (k', opt')" by (cases kv)
      with Inr Some Cons.prems
      have "scan_rows con prefix path fp rows (final(k' \<mapsto> opt')) = Inr bm" by simp
      from Cons.IH [OF this Cons.prems(2)] row_entry_Some [of con prefix path fp kd k' opt'] Inr Some kv
      show ?thesis by (auto simp: record_of_def split: if_splits)
    qed
  qed
qed

lemma get_bookmarks_entry:
  assumes "get_bookmarks fs spec fp = Inr bm" and "bm k = Some opt"
  shows "\<exists>prefix path con rows. split_prefix spec = Inr (prefix, path) \<and> fs path = Inr con
           \<and> moz_keywords con = Inr rows
           \<and> (\<exists>kd \<in> set rows. \<exists>place. record_of prefix k kd
                \<and> moz_places con (kd ! 2) = Inr (Some place) \<and> 2 \<le> length place
                \<and> opt = bookmark_option fp path k (place ! 1))"
proof -
  from assms(1) obtain prefix path con rows where
    sp: "split_prefix spec = Inr (prefix, path)" and con: "fs path = Inr con"
    and rows: "moz_keywords con = Inr rows"
    and scan: "scan_rows con prefix path fp rows Map.empty = Inr bm"
    by (rule get_bookmarks_Inr)
  from scan_rows_entry [OF scan assms(2)] sp con rows show ?thesis by simp
qed

lemma row_entry_well_formed:
  "well_formed_row con kd \<Longrightarrow>
     row_entry con prefix path fp kd =
       Inr (if place_found con kd
            then Some (prefix @ py_str (kd ! 1),
                   bookmark_option fp path (prefix @ py_str (kd ! 1)) (row_url con kd))
            else None)"
  by (auto simp: well_formed_row_def row_entry_def place_found_def row_url_def
           split: sum.splits option.splits)

lemma scan_rows_well_formed:
  "list_all (well_formed_row con) rows \<Longrightarrow>
     scan_rows con prefix path fp rows final =
       Inr (final ++ map_of (rev (entries con prefix path fp rows)))"
proof (induction rows arbitrary: final)
  case Nil
  show ?case by (simp add: entries_def)
next
  case (Cons kd rows)
  then have wf: "well_formed_row con kd" and rest: "list_all (well_formed_row con) rows"
    by simp_all
  show ?case
  proof (cases "place_found con kd")
    case True
    let ?k = "prefix @ py_str (kd ! 1)"
    let ?opt = "bookmark_option fp path ?k (row_url con kd)"
    have e: "entries con prefix path fp (kd # rows) = (?k, ?opt) # entries con prefix path fp rows"
      using True by (simp add: entries_def)
    have "scan_rows con prefix path fp (kd # rows) final =
            scan_rows con prefix path fp rows (final(?k \<mapsto> ?opt))"
      using True by (simp add: row_entry_well_formed [OF wf])
    also have "\<dots> = Inr (final(?k \<mapsto> ?opt) ++ map_of (rev (entries con prefix path fp rows)))"
      by (rule Cons.IH [OF rest])
    also have "final(?k \<mapsto> ?opt) ++ map_of (rev (entries con prefix path fp rows)) =
               final ++ map_of (rev (entries con prefix path fp (kd # rows)))"
      unfolding e by (simp add: map_add_upd_left fun_eq_iff map_add_def split: option.splits)
    finally show ?thesis .
  next
    case False
    then have "entries con prefix path fp (kd # rows) = entries con prefix path fp rows"
      by (simp add: entries_def)
    with False Cons.IH [OF rest, of final] show ?thesis
      by (simp add: row_entry_well_formed [OF wf])
  qed
qed

text \<open>
  Lines 33-37 on the strings they accept, with the examples of the specification.
\<close>

lemma split_prefix_long:
  "2 \<le> length s \<Longrightarrow>
     split_prefix s = Inr (if s ! 1 = CHR ''|'' then ([s ! 0], drop 2 s) else ([], s))"
  by (simp add: split_prefix_def)

lemma split_prefix_examples:
  "split_prefix ''A|/path/to/profile'' = Inr (''A'', ''/path/to/profile'')"
  "split_prefix ''/path/to/profile'' = Inr ('''', ''/path/to/profile'')"
  "get_entry demo_fs ''A|/a'' None ''Ago'' =
     Inr (Some (bookmark_option None ''/a'' ''Ago'' (SText ''https://go.a.com/'')))"
  "get_entry demo_fs ''/a'' None ''go'' =
     Inr (Some (bookmark_option None ''/a'' ''go'' (SText ''https://go.a.com/'')))"
  by (simp_all add: eval_defs demo_defs)

section \<open>The load loop\<close>

lemma load_loop_Cons_Inr:
  "get_bookmarks fs sp fp = Inr bm \<Longrightarrow>
     load_loop fs fp (sp # specs) c =
       (fst (load_loop fs fp specs (c ++ bm)), sp # snd (load_loop fs fp specs (c ++ bm)))"
  by (simp split: prod.splits)

lemma load_loop_Loaded_Cons:
  assumes "fst (load_loop fs fp (sp # specs) c) = Loaded c'"
  obtains bm where "get_bookmarks fs sp fp = Inr bm"
    "fst (load_loop fs fp specs (c ++ bm)) = Loaded c'"
proof (cases "get_bookmarks fs sp fp")
  case (Inl e)
  with assms show ?thesis by (simp split: if_splits)
next
  case (Inr bm)
  with assms that show ?thesis by (simp add: load_loop_Cons_Inr del: load_loop.simps)
qed

lemma load_loop_tried:
  "specs \<noteq> [] \<Longrightarrow> \<exists>n. 0 < n \<and> n \<le> length specs \<and> snd (load_loop fs fp specs c) = take n specs"
proof (induction specs arbitrary: c)
  case Nil
  then show ?case by simp
next
  case (Cons sp specs)
  show ?case
  proof (cases "get_bookmarks fs sp fp")
    case (Inl e)
    then have "snd (load_loop fs fp (sp # specs) c) = take 1 (sp # specs)" by simp
    then show ?thesis by (intro exI [of _ 1]) simp
  next
    case (Inr bm)
    show ?thesis
    proof (cases "specs = []")
      case True
      with Inr have "snd (load_loop fs fp (sp # specs) c) = take 1 (sp # specs)" by simp
      then show ?thesis by (intro exI [of _ 1]) simp
    next
      case False
      from Cons.IH [OF False, of "c ++ bm"] obtain n where
        n: "0 < n" "n \<le> length specs" "snd (load_loop fs fp specs (c ++ bm)) = take n specs"
        by blast
      with Inr have "snd (load_loop fs fp (sp # specs) c) = take (Suc n) (sp # specs)"
        by (simp add: load_loop_Cons_Inr del: load_loop.simps)
      with n show ?thesis by (intro exI [of _ "Suc n"]) simp
    qed
  qed
qed


lemma load_loop_all_Loaded:
  "\<forall>sp \<in> set specs. \<exists>bm. get_bookmarks fs sp fp = Inr bm \<Longrightarrow> \<exists>c'. load_loop fs fp specs c = (Loaded c', specs)"
proof (induction specs arbitrary: c)
  case Nil
  then show ?case by simp
next
  case (Cons sp specs)
  then obtain bm where bm: "get_bookmarks fs sp fp = Inr bm" by auto
  from Cons.IH [of "c ++ bm"] Cons.prems obtain c' where
    "load_loop fs fp specs (c ++ bm) = (Loaded c', specs)" by auto
  with bm show ?case by simp
qed

lemma load_loop_defined:
  "fst (load_loop fs fp specs c) = Loaded c' \<Longrightarrow>
     (c' k \<noteq> None) = (c k \<noteq> None \<or> (\<exists>sp \<in> set specs. has_resolved_record fs sp k))"
proof (induction specs arbitrary: c)
  case Nil
  then show ?case by simp
next
  case (Cons sp specs)
  from Cons.prems obtain bm where bm: "get_bookmarks fs sp fp = Inr bm"
    and "fst (load_loop fs fp specs (c ++ bm)) = Loaded c'"
    by (rule load_loop_Loaded_Cons)
  from Cons.IH [OF this(2)] get_bookmarks_defined [OF bm, of k]
  show ?case by (auto simp: map_add_Some_iff)
qed

lemma load_loop_keeps:
  "fst (load_loop fs fp post c) = Loaded c' \<Longrightarrow>
   \<forall>sp' \<in> set post. \<not> has_resolved_record fs sp' k \<Longrightarrow> c' k = c k"
proof (induction post arbitrary: c)
  case Nil
  then show ?case by simp
next
  case (Cons sp post)
  from Cons.prems(1) obtain bm where bm: "get_bookmarks fs sp fp = Inr bm"
    and l: "fst (load_loop fs fp post (c ++ bm)) = Loaded c'"
    by (rule load_loop_Loaded_Cons)
  from get_bookmarks_defined [OF bm, of k] Cons.prems(2) have "bm k = None" by simp
  with Cons.IH [OF l] Cons.prems(2) show ?case by (simp add: map_add_def)
qed

lemma load_loop_last_wins:
  "fst (load_loop fs fp (pre @ sp # post) c) = Loaded c' \<Longrightarrow>
   get_bookmarks fs sp fp = Inr bm \<Longrightarrow> bm k = Some opt \<Longrightarrow>
   \<forall>sp' \<in> set post. \<not> has_resolved_record fs sp' k \<Longrightarrow> c' k = Some opt"
proof (induction pre arbitrary: c)
  case Nil
  from Nil.prems have l: "fst (load_loop fs fp post (c ++ bm)) = Loaded c'"
    by (simp add: load_loop_Cons_Inr del: load_loop.simps)
  from load_loop_keeps [OF l Nil.prems(4)] Nil.prems(3) show ?case by simp
next
  case (Cons a pre)
  from Cons.prems(1) have "fst (load_loop fs fp (a # (pre @ sp # post)) c) = Loaded c'"
    by simp
  then obtain bm' where "get_bookmarks fs a fp = Inr bm'"
    and "fst (load_loop fs fp (pre @ sp # post) (c ++ bm')) = Loaded c'"
    by (rule load_loop_Loaded_Cons)
  from Cons.IH [OF this(2) Cons.prems(2,3,4)] show ?case .
qed

lemma load_loop_OperationalError:
  "list_all (loads fs fp) pre \<Longrightarrow> get_bookmarks fs sp fp = Inl OperationalError \<Longrightarrow>
     load_loop fs fp (pre @ sp # post) c = (Failed sp, pre @ [sp])"
proof (induction pre arbitrary: c)
  case Nil
  then show ?case by simp
next
  case (Cons a pre)
  then obtain bm where bm: "get_bookmarks fs a fp = Inr bm"
    by (cases "get_bookmarks fs a fp") (simp_all add: loads_def)
  from Cons.IH [of "c ++ bm"] Cons.prems have
    "load_loop fs fp (pre @ sp # post) (c ++ bm) = (Failed sp, pre @ [sp])" by simp
  with bm show ?case by simp
qed

lemma load_loop_other_exception:
  "list_all (loads fs fp) pre \<Longrightarrow> get_bookmarks fs sp fp = Inl e \<Longrightarrow> e \<noteq> OperationalError \<Longrightarrow>
     \<exists>c'. load_loop fs fp (pre @ sp # post) c = (Escaped e c', pre @ [sp])"
proof (induction pre arbitrary: c)
  case Nil
  then show ?case by simp
next
  case (Cons a pre)
  then obtain bm where bm: "get_bookmarks fs a fp = Inr bm"
    by (cases "get_bookmarks fs a fp") (simp_all add: loads_def)
  from Cons.IH [of "c ++ bm"] Cons.prems obtain c' where
    "load_loop fs fp (pre @ sp # post) (c ++ bm) = (Escaped e c', pre @ [sp])" by auto
  with bm show ?case by simp
qed

section \<open>The split into lines\<close>

lemma split_crlf_not_Nil: "split_crlf s \<noteq> []"
  by (induction s rule: split_crlf.induct) (auto split: list.splits elim: cons_first.elims)









section \<open>The query handler and the reload\<close>

lemma call_unloaded:
  "cache self = None \<Longrightarrow> d \<noteq> [] \<Longrightarrow>
     call fs q \<lparr> profile_path_data = Some d, firefox_fp = fp \<rparr> self =
       (case load_loop fs fp (split_crlf d) Map.empty of
          (Loaded c, tried) \<Rightarrow>
            (Inr (lookup c q), \<lparr> cache = Some c, getting_log = getting_log self @ tried \<rparr>)
        | (Failed path, tried) \<Rightarrow>
            (Inr [unable_option path], \<lparr> cache = None, getting_log = getting_log self @ tried \<rparr>)
        | (Escaped e c, tried) \<Rightarrow>
            (Inl e, \<lparr> cache = Some c, getting_log = getting_log self @ tried \<rparr>))"
  by (simp add: call_def)

lemma call_loaded:
  "cache self = Some c \<Longrightarrow>
     call fs q st self =
       (if profile_path_data st = None \<or> profile_path_data st = Some []
        then Inr [no_profile_option] else Inr (lookup c q), self)"
  by (auto simp: call_def split: option.splits)

lemma call_log:
  assumes "cache self = None" and "d \<noteq> []"
  shows "getting_log (snd (call fs q \<lparr> profile_path_data = Some d, firefox_fp = fp \<rparr> self)) =
           getting_log self @ snd (load_loop fs fp (split_crlf d) Map.empty)"
  by (simp add: call_unloaded [OF assms] split: prod.splits load_result.splits)

lemma lookup_Nil: "(lookup c q \<noteq> []) = (c q \<noteq> None)"
  by (simp add: lookup_def split: option.splits)

lemma call_loaded_state: "cache self = Some c \<Longrightarrow> snd (call fs q st self) = self"
  by (simp add: call_loaded)

lemma calls_loaded: "cache self = Some c \<Longrightarrow> calls fs qs self = self"
proof (induction qs arbitrary: self)
  case Nil
  show ?case by simp
next
  case (Cons x qs)
  obtain q st where x: "x = (q, st)" by (cases x)
  from Cons.prems have "snd (call fs q st self) = self" by (rule call_loaded_state)
  with Cons x show ?case by simp
qed

lemma call_unloaded_cases:
  assumes "cache self = None" and "d \<noteq> []"
  obtains
    (Loaded) c tried where
      "load_loop fs fp (split_crlf d) Map.empty = (Loaded c, tried)"
      "call fs q \<lparr> profile_path_data = Some d, firefox_fp = fp \<rparr> self =
         (Inr (lookup c q), \<lparr> cache = Some c, getting_log = getting_log self @ tried \<rparr>)"
  | (Failed) p tried where
      "load_loop fs fp (split_crlf d) Map.empty = (Failed p, tried)"
      "call fs q \<lparr> profile_path_data = Some d, firefox_fp = fp \<rparr> self =
         (Inr [unable_option p], \<lparr> cache = None, getting_log = getting_log self @ tried \<rparr>)"
  | (Escaped) e c tried where
      "load_loop fs fp (split_crlf d) Map.empty = (Escaped e c, tried)"
      "call fs q \<lparr> profile_path_data = Some d, firefox_fp = fp \<rparr> self =
         (Inl e, \<lparr> cache = Some c, getting_log = getting_log self @ tried \<rparr>)"
proof -
  obtain r tried where l: "load_loop fs fp (split_crlf d) Map.empty = (r, tried)"
    by (cases "load_loop fs fp (split_crlf d) Map.empty")
  show ?thesis
  proof (cases r)
    case (Loaded c)
    with l show ?thesis by (intro that(1) [of c tried]) (simp_all add: call_unloaded [OF assms])
  next
    case (Failed p)
    with l show ?thesis by (intro that(2) [of p tried]) (simp_all add: call_unloaded [OF assms])
  next
    case (Escaped e c)
    with l show ?thesis by (intro that(3) [of e c tried]) (simp_all add: call_unloaded [OF assms])
  qed
qed

lemma settings_eta:
  "profile_path_data st = Some d \<Longrightarrow>
     st = \<lparr> profile_path_data = Some d, firefox_fp = firefox_fp st \<rparr>"
  by simp

text \<open>
  What the lazy load does when a store fails: \<open>OperationalError\<close> at the first
  failing profile resets the cache and returns one option naming the configured string;
  any other exception leaves the handler, and the cache stays loaded with what was
  merged before.
\<close>

lemma lazy_load_OperationalError:
  assumes "cache self = None" and "d \<noteq> []" and "split_crlf d = pre @ sp # post"
    and "list_all (loads fs fp) pre" and "get_bookmarks fs sp fp = Inl OperationalError"
  shows "call fs q \<lparr> profile_path_data = Some d, firefox_fp = fp \<rparr> self =
           (Inr [unable_option sp],
            \<lparr> cache = None, getting_log = getting_log self @ pre @ [sp] \<rparr>)"
  using load_loop_OperationalError [OF assms(4,5), of post Map.empty] assms(3)
  by (simp add: call_unloaded [OF assms(1,2)])

lemma lazy_load_other_exception:
  assumes "cache self = None" and "d \<noteq> []" and "split_crlf d = pre @ sp # post"
    and "list_all (loads fs fp) pre" and "get_bookmarks fs sp fp = Inl e"
    and "e \<noteq> OperationalError"
  shows "\<exists>c. call fs q \<lparr> profile_path_data = Some d, firefox_fp = fp \<rparr> self =
           (Inl e, \<lparr> cache = Some c, getting_log = getting_log self @ pre @ [sp] \<rparr>)"
  using load_loop_other_exception [OF assms(4,5,6), of post Map.empty] assms(3)
  by (auto simp: call_unloaded [OF assms(1,2)])

text \<open>
  The reload: a failure leaves the cache as it was, a success replaces it by what the
  one path gives.
\<close>

lemma reload_cache_failure:
  "get_bookmarks fs path fp = Inl e \<Longrightarrow>
     reload_cache fs path fp self =
       (Inl e, self\<lparr> getting_log := getting_log self @ [path] \<rparr>)"
  by (simp add: reload_cache_def)

lemma reload_cache_success:
  "get_bookmarks fs path fp = Inr bm \<Longrightarrow>
     reload_cache fs path fp self =
       (Inr (ExecuteResponse False),
        \<lparr> cache = Some bm, getting_log = getting_log self @ [path] \<rparr>)"
  by (simp add: reload_cache_def)

text \<open>
  The lazy load by the state of the cache. A query on a plugin whose cache is not loaded, with a profile string that is not
  empty, makes one pass over the configured lines: the calls of \<open>get_bookmarks\<close> it
  adds to the log are the first \<open>n\<close> lines, \<open>n > 0\<close>, each once. A query on a
  plugin whose cache is loaded, with any dictionary \<open>c\<close> (the empty one too, which is
  not the state \<open>None\<close>), leaves the plugin as it was, log and cache, and so does any
  sequence of queries; with a profile string given its answer is the lookup in \<open>c\<close>.
  When every configured profile loads, the query on the unloaded plugin leaves it
  loaded, every line read once.
\<close>

lemma lazy_load_once:
  "(cache self = None \<and> d \<noteq> [] \<longrightarrow>
      (\<exists>n. 0 < n \<and> n \<le> length (split_crlf d)
         \<and> getting_log (snd (call fs q \<lparr> profile_path_data = Some d, firefox_fp = fp \<rparr> self))
             = getting_log self @ take n (split_crlf d)))
   \<and> (\<forall>c. cache self = Some c \<longrightarrow>
         snd (call fs q st self) = self \<and> calls fs qs self = self
         \<and> (profile_path_data st = Some d \<and> d \<noteq> [] \<longrightarrow> fst (call fs q st self) = Inr (lookup c q)))
   \<and> (cache self = None \<and> d \<noteq> [] \<and> list_all (loads fs fp) (split_crlf d) \<longrightarrow>
        (\<exists>c. snd (call fs q \<lparr> profile_path_data = Some d, firefox_fp = fp \<rparr> self) =
               \<lparr> cache = Some c, getting_log = getting_log self @ split_crlf d \<rparr>))"
proof (intro conjI impI allI)
  assume a: "cache self = None \<and> d \<noteq> []"
  then have "split_crlf d \<noteq> []" by (simp add: split_crlf_not_Nil)
  from load_loop_tried [OF this, of fs fp Map.empty] a
  show "\<exists>n. 0 < n \<and> n \<le> length (split_crlf d)
         \<and> getting_log (snd (call fs q \<lparr> profile_path_data = Some d, firefox_fp = fp \<rparr> self))
             = getting_log self @ take n (split_crlf d)"
    by (auto simp: call_log)
next
  fix c assume "cache self = Some c"
  then show "snd (call fs q st self) = self" by (rule call_loaded_state)
next
  fix c assume "cache self = Some c"
  then show "calls fs qs self = self" by (rule calls_loaded)
next
  fix c assume "cache self = Some c" and "profile_path_data st = Some d \<and> d \<noteq> []"
  then show "fst (call fs q st self) = Inr (lookup c q)" by (simp add: call_loaded)
next
  assume a: "cache self = None \<and> d \<noteq> [] \<and> list_all (loads fs fp) (split_crlf d)"
  have "\<forall>sp \<in> set (split_crlf d). \<exists>bm. get_bookmarks fs sp fp = Inr bm"
  proof
    fix sp assume "sp \<in> set (split_crlf d)"
    with a have "loads fs fp sp" by (simp add: list_all_iff)
    then show "\<exists>bm. get_bookmarks fs sp fp = Inr bm"
      by (cases "get_bookmarks fs sp fp") (simp_all add: loads_def)
  qed
  from load_loop_all_Loaded [OF this, of Map.empty] obtain c where
    "load_loop fs fp (split_crlf d) Map.empty = (Loaded c, split_crlf d)" by blast
  with a show "\<exists>c. snd (call fs q \<lparr> profile_path_data = Some d, firefox_fp = fp \<rparr> self) =
               \<lparr> cache = Some c, getting_log = getting_log self @ split_crlf d \<rparr>"
    by (simp add: call_unloaded)
qed

text \<open>
  The same on a profile without keywords: the first query reads the store once and leaves the
  cache loaded and empty; the queries after it read nothing and change nothing.
\<close>

lemma lazy_load_once_example:
  "cache init = None
   \<and> getting_log (snd (call demo_fs ''go'' no_rows_profile init)) = [''/norows'']
   \<and> cache loaded_empty = Some Map.empty
   \<and> snd (call demo_fs ''go'' no_rows_profile loaded_empty) = loaded_empty
   \<and> calls demo_fs [(''go'', no_rows_profile), (''mail'', mail_profiles)] loaded_empty
       = loaded_empty
   \<and> fst (call demo_fs ''go'' no_rows_profile loaded_empty) = Inr []"
proof -
  have l: "loaded_empty = \<lparr> cache = Some Map.empty, getting_log = [''/norows''] \<rparr>"
    by (simp add: loaded_empty_def no_rows_profile_def eval_defs demo_defs)
  have c: "cache loaded_empty = Some Map.empty" by (simp add: l)
  have i: "cache init = None" by (simp add: init_def)
  have "split_crlf ''/norows'' = [''/norows'']" by (simp add: demo_defs)
  moreover have "cache init = None \<and> ''/norows'' \<noteq> []" by (simp add: init_def)
  note lazy_load_once [where self = init and d = "''/norows''" and fs = demo_fs
      and q = "''go''" and fp = None, THEN conjunct1, THEN mp, OF this]
  ultimately obtain n where "0 < n" and "n \<le> 1"
    and "getting_log (snd (call demo_fs ''go''
           \<lparr> profile_path_data = Some ''/norows'', firefox_fp = None \<rparr> init))
         = getting_log init @ take n [''/norows'']"
    by auto
  then have 1: "getting_log (snd (call demo_fs ''go'' no_rows_profile init)) = [''/norows'']"
    by (simp add: no_rows_profile_def init_def)
  note r = lazy_load_once [where self = loaded_empty and d = "''/norows''" and fs = demo_fs
      and q = "''go''" and st = no_rows_profile
      and qs = "[(''go'', no_rows_profile), (''mail'', mail_profiles)]",
      THEN conjunct2, THEN conjunct1, THEN spec, THEN mp, OF c]
  from r have 2: "snd (call demo_fs ''go'' no_rows_profile loaded_empty) = loaded_empty"
    by (rule conjunct1)
  from r have 3: "calls demo_fs [(''go'', no_rows_profile), (''mail'', mail_profiles)] loaded_empty
       = loaded_empty"
    by (rule conjunct2 [THEN conjunct1])
  have "profile_path_data no_rows_profile = Some ''/norows'' \<and> ''/norows'' \<noteq> []"
    by (simp add: no_rows_profile_def)
  from r [THEN conjunct2, THEN conjunct2, THEN mp, OF this]
  have 4: "fst (call demo_fs ''go'' no_rows_profile loaded_empty) = Inr (lookup Map.empty ''go'')" .
  from 4 have 5: "fst (call demo_fs ''go'' no_rows_profile loaded_empty) = Inr []"
    by (simp add: lookup_def)
  from i 1 c 2 3 5 show ?thesis by (intro conjI)
qed

section \<open>The invariant of the cache\<close>

lemma entry_ok_bookmark_option: "entry_ok k (bookmark_option fp path k url)"
  by (simp add: entry_ok_def bookmark_option_def)

lemma get_bookmarks_inv:
  assumes "get_bookmarks fs spec fp = Inr bm"
  shows "cache_inv (Some bm)"
  unfolding cache_inv_def
proof (simp, intro allI impI)
  fix k opt assume "bm k = Some opt"
  from get_bookmarks_entry [OF assms this] show "entry_ok k opt"
    by (auto simp: entry_ok_bookmark_option)
qed

lemma cache_inv_add:
  "cache_inv (Some c) \<Longrightarrow> cache_inv (Some bm) \<Longrightarrow> cache_inv (Some (c ++ bm))"
  by (auto simp: cache_inv_def map_add_Some_iff)

lemma load_loop_inv:
  "cache_inv (Some c) \<Longrightarrow>
     (case fst (load_loop fs fp specs c) of
        Loaded c' \<Rightarrow> cache_inv (Some c')
      | Failed p \<Rightarrow> True
      | Escaped e c' \<Rightarrow> cache_inv (Some c'))"
proof (induction specs arbitrary: c)
  case Nil
  then show ?case by simp
next
  case (Cons sp specs)
  show ?case
  proof (cases "get_bookmarks fs sp fp")
    case (Inl e)
    with Cons.prems show ?thesis by simp
  next
    case (Inr bm)
    from cache_inv_add [OF Cons.prems get_bookmarks_inv [OF Inr]]
    have "cache_inv (Some (c ++ bm))" .
    from Cons.IH [OF this] Inr show ?thesis
      by (simp add: load_loop_Cons_Inr del: load_loop.simps)
  qed
qed

lemma load_loop_inv_Loaded:
  "cache_inv (Some c) \<Longrightarrow> load_loop fs fp specs c = (Loaded c', tried) \<Longrightarrow>
     cache_inv (Some c')"
  using load_loop_inv [of c fs fp specs] by simp

lemma load_loop_inv_Escaped:
  "cache_inv (Some c) \<Longrightarrow> load_loop fs fp specs c = (Escaped e c', tried) \<Longrightarrow>
     cache_inv (Some c')"
  using load_loop_inv [of c fs fp specs] by simp

lemma call_inv:
  assumes "cache_inv (cache self)"
  shows "cache_inv (cache (snd (call fs q st self)))"
proof (cases "cache self")
  case (Some c)
  with assms show ?thesis by (simp add: call_loaded)
next
  case None
  show ?thesis
  proof (cases "profile_path_data st = None \<or> profile_path_data st = Some []")
    case True
    with assms show ?thesis by (auto simp: call_def)
  next
    case False
    then obtain d where d: "profile_path_data st = Some d" "d \<noteq> []" by auto
    have e: "cache_inv (Some Map.empty)" by (simp add: cache_inv_def)
    have "cache_inv (cache (snd (call fs q \<lparr> profile_path_data = Some d,
            firefox_fp = firefox_fp st \<rparr> self)))"
    proof (cases rule: call_unloaded_cases [OF None d(2), of fs "firefox_fp st" q])
      case (1 c tried)
      from load_loop_inv_Loaded [OF e 1(1)] 1(2) show ?thesis by simp
    next
      case (2 p tried)
      then show ?thesis by (simp add: cache_inv_def)
    next
      case (3 e' c tried)
      from load_loop_inv_Escaped [OF e 3(1)] 3(2) show ?thesis by simp
    qed
    with settings_eta [OF d(1)] show ?thesis by simp
  qed
qed

lemma lookup_entry_ok:
  "cache_inv (Some c) \<Longrightarrow> lookup c k = [opt] \<Longrightarrow> entry_ok k opt"
  by (simp add: cache_inv_def lookup_def split: option.splits)

lemma call_result:
  assumes "cache_inv (cache self)" and "fst (call fs q st self) = Inr [opt]"
  shows "opt = no_profile_option \<or> (\<exists>p. opt = unable_option p) \<or> entry_ok q opt"
proof (cases "profile_path_data st = None \<or> profile_path_data st = Some []")
  case True
  with assms(2) show ?thesis by (auto simp: call_def)
next
  case False
  then obtain d where d: "profile_path_data st = Some d" "d \<noteq> []" by auto
  show ?thesis
  proof (cases "cache self")
    case (Some c)
    with assms(2) d have "lookup c q = [opt]" by (simp add: call_loaded)
    from lookup_entry_ok [OF _ this] assms(1) Some show ?thesis by simp
  next
    case None
    have e: "cache_inv (Some Map.empty)" by (simp add: cache_inv_def)
    from assms(2) settings_eta [OF d(1)]
    have r: "fst (call fs q \<lparr> profile_path_data = Some d, firefox_fp = firefox_fp st \<rparr> self)
               = Inr [opt]" by simp
    show ?thesis
    proof (cases rule: call_unloaded_cases [OF None d(2), of fs "firefox_fp st" q])
      case (1 c tried)
      with r have "lookup c q = [opt]" by simp
      from lookup_entry_ok [OF load_loop_inv_Loaded [OF e 1(1)] this] show ?thesis by simp
    next
      case (2 p tried)
      with r show ?thesis by auto
    next
      case (3 e' c tried)
      with r show ?thesis by simp
    qed
  qed
qed

lemma reload_inv:
  assumes "cache_inv (cache self)"
  shows "cache_inv (cache (snd (reload_cache fs path fp self)))"
proof (cases "get_bookmarks fs path fp")
  case (Inl e)
  with assms show ?thesis by (simp add: reload_cache_def)
next
  case (Inr bm)
  from get_bookmarks_inv [OF Inr] Inr show ?thesis by (simp add: reload_cache_def)
qed

section \<open>Claims\<close>

text \<open>
  C1. The claim: after every load attempt in which reading a profile's store fails, by
  the lazy load or by the reload, the cache is not loaded and holds no partial merge.
  The source does so only in the lazy load and only for \<open>OperationalError\<close>
  (\<open>lazy_load_OperationalError\<close>). Two runs where it does not. A reload of
  \<open>/a\<close> while its store is locked, from a loaded cache: the exception leaves
  \<open>reload_cache\<close> and the cache still holds the entries loaded before. A lazy load of two profiles whose second
  is not a database: \<open>DatabaseError\<close> leaves the handler, the cache is loaded with the
  entries of the first profile, and the next query is answered from it, the state
  unchanged, with no further load.
\<close>

theorem C1_failed_load_leaves_cache_loaded:
  "cached after_load ''Amail'' =
     Some (Some (bookmark_option None ''/a'' ''Amail'' (SText ''https://mail.a.com/'')))
   \<and> fst (reload_cache locked_fs ''/a'' None after_load) = Inl OperationalError
   \<and> cached (snd (reload_cache locked_fs ''/a'' None after_load)) ''Amail'' =
       Some (Some (bookmark_option None ''/a'' ''Amail'' (SText ''https://mail.a.com/'')))
   \<and> fst (call demo_fs ''mail'' broken_second init) = Inl DatabaseError
   \<and> cached (snd (call demo_fs ''mail'' broken_second init)) ''mail'' =
       Some (Some (bookmark_option None ''/a'' ''mail'' (SText ''https://mail.a.com/'')))
   \<and> call demo_fs ''mail'' broken_second (snd (call demo_fs ''mail'' broken_second init)) =
       (Inr [bookmark_option None ''/a'' ''mail'' (SText ''https://mail.a.com/'')],
        snd (call demo_fs ''mail'' broken_second init))"
  by (simp add: eval_defs demo_defs scenario_defs)

text \<open>
  C2, as amended. When the profile string is not empty, the cache is not loaded and
  every configured profile loads, the query handler loads every line once, in order,
  and keeps the merged dictionary; it answers the query, and every later query under
  such settings, from that dictionary. A lookup of \<open>q\<close> returns an entry if and only
  if the store of some configured profile contains a keyword record whose full keyword
  is \<open>q\<close> and whose place is found; and the entry returned is the one of the last
  configured profile that has such a record.
\<close>

theorem C2_lookup_after_load:
  assumes "d \<noteq> []" and "cache self = None"
    and "\<forall>sp \<in> set (split_crlf d). \<exists>bm. get_bookmarks fs sp fp = Inr bm"
  shows "\<exists>c. call fs k \<lparr> profile_path_data = Some d, firefox_fp = fp \<rparr> self =
           (Inr (lookup c k), \<lparr> cache = Some c, getting_log = getting_log self @ split_crlf d \<rparr>)
     \<and> (\<forall>self' q. cache self' = Some c \<longrightarrow>
           call fs q \<lparr> profile_path_data = Some d, firefox_fp = fp \<rparr> self' =
             (Inr (lookup c q), self'))
     \<and> (\<forall>q. (lookup c q \<noteq> []) = (\<exists>sp \<in> set (split_crlf d). has_resolved_record fs sp q))
     \<and> (\<forall>q pre sp post bm.
           split_crlf d = pre @ sp # post \<and> get_bookmarks fs sp fp = Inr bm
           \<and> has_resolved_record fs sp q
           \<and> (\<forall>sp' \<in> set post. \<not> has_resolved_record fs sp' q)
           \<longrightarrow> lookup c q = lookup bm q)"
proof -
  from load_loop_all_Loaded [OF assms(3), of Map.empty] obtain c where
    l: "load_loop fs fp (split_crlf d) Map.empty = (Loaded c, split_crlf d)" by blast
  then have fl: "fst (load_loop fs fp (split_crlf d) Map.empty) = Loaded c" by simp
  have 1: "call fs k \<lparr> profile_path_data = Some d, firefox_fp = fp \<rparr> self =
           (Inr (lookup c k), \<lparr> cache = Some c, getting_log = getting_log self @ split_crlf d \<rparr>)"
    using l by (simp add: call_unloaded [OF assms(2,1)])
  have 2: "\<forall>self' q. cache self' = Some c \<longrightarrow>
           call fs q \<lparr> profile_path_data = Some d, firefox_fp = fp \<rparr> self' =
             (Inr (lookup c q), self')"
    using assms(1) by (simp add: call_loaded)
  have 3: "\<forall>q. (lookup c q \<noteq> []) = (\<exists>sp \<in> set (split_crlf d). has_resolved_record fs sp q)"
    using load_loop_defined [OF fl] by (simp add: lookup_Nil)
  have 4: "\<forall>q pre sp post bm.
           split_crlf d = pre @ sp # post \<and> get_bookmarks fs sp fp = Inr bm
           \<and> has_resolved_record fs sp q
           \<and> (\<forall>sp' \<in> set post. \<not> has_resolved_record fs sp' q)
           \<longrightarrow> lookup c q = lookup bm q"
  proof (intro allI impI, elim conjE)
    fix q pre sp post bm
    assume s: "split_crlf d = pre @ sp # post" and bm: "get_bookmarks fs sp fp = Inr bm"
      and r: "has_resolved_record fs sp q"
      and p: "\<forall>sp' \<in> set post. \<not> has_resolved_record fs sp' q"
    from get_bookmarks_defined [OF bm, of q] r obtain opt where opt: "bm q = Some opt" by auto
    from fl s have "fst (load_loop fs fp (pre @ sp # post) Map.empty) = Loaded c" by simp
    from load_loop_last_wins [OF this bm opt p] opt show "lookup c q = lookup bm q"
      by (simp add: lookup_def)
  qed
  from 1 2 3 4 show ?thesis by blast
qed

text \<open>
  C2 on the two profiles of the specification's scenario: \<open>/a\<close> without prefix and
  \<open>/b\<close> with prefix \<open>w\<close>, both defining \<open>mail\<close>. After the load \<open>mail\<close>
  gives the entry of \<open>/a\<close>, \<open>wmail\<close> the entry of \<open>/b\<close>, and \<open>wgo\<close> nothing.
\<close>

theorem C2_lookup_after_load_witness:
  "split_crlf (lines2 ''/a'' ''w|/b'') = [''/a'', ''w|/b'']
   \<and> get_entry demo_fs ''/a'' None ''mail'' =
        Inr (Some (bookmark_option None ''/a'' ''mail'' (SText ''https://mail.a.com/'')))
   \<and> get_entry demo_fs ''w|/b'' None ''wmail'' =
        Inr (Some (bookmark_option None ''/b'' ''wmail'' (SText ''https://mail.b.com/'')))
   \<and> (\<exists>c. call demo_fs ''wmail'' mail_profiles init =
             (Inr (lookup c ''wmail''),
              \<lparr> cache = Some c, getting_log = [''/a'', ''w|/b''] \<rparr>)
          \<and> lookup c ''mail'' = [bookmark_option None ''/a'' ''mail'' (SText ''https://mail.a.com/'')]
          \<and> lookup c ''wmail'' = [bookmark_option None ''/b'' ''wmail'' (SText ''https://mail.b.com/'')]
          \<and> lookup c ''wgo'' = [])"
proof -
  let ?d = "lines2 ''/a'' ''w|/b''"
  have s: "split_crlf ?d = [''/a'', ''w|/b'']" by (simp add: demo_defs)
  have h1: "?d \<noteq> []" by (simp add: lines2_def)
  have h2: "cache init = None" by (simp add: init_def)
  obtain bma where bma: "get_bookmarks demo_fs ''/a'' None = Inr bma"
    and bma_mail: "bma ''mail'' = Some (bookmark_option None ''/a'' ''mail'' (SText ''https://mail.a.com/''))"
    by (simp add: eval_defs demo_defs)
  obtain bmb where bmb: "get_bookmarks demo_fs ''w|/b'' None = Inr bmb"
    and bmb_mail: "bmb ''wmail'' = Some (bookmark_option None ''/b'' ''wmail'' (SText ''https://mail.b.com/''))"
    by (simp add: eval_defs demo_defs)
  have h3: "\<forall>sp \<in> set (split_crlf ?d). \<exists>bm. get_bookmarks demo_fs sp None = Inr bm"
    using bma bmb by (simp add: s)
  have ra: "has_resolved_record demo_fs ''/a'' ''mail''"
    using get_bookmarks_defined [OF bma, of "''mail''"] bma_mail by simp
  have rb: "has_resolved_record demo_fs ''w|/b'' ''wmail''"
    using get_bookmarks_defined [OF bmb, of "''wmail''"] bmb_mail by simp
  have nb: "\<not> has_resolved_record demo_fs ''w|/b'' ''mail''"
    by (simp add: has_resolved_record_def split_prefix_def demo_defs record_of_def)
  have ng: "\<not> has_resolved_record demo_fs ''/a'' ''wgo''" "\<not> has_resolved_record demo_fs ''w|/b'' ''wgo''"
    by (simp_all add: has_resolved_record_def split_prefix_def demo_defs record_of_def)
  from C2_lookup_after_load [OF h1 h2 h3, of "''wmail''"] obtain c where
    c1: "call demo_fs ''wmail'' \<lparr> profile_path_data = Some ?d, firefox_fp = None \<rparr> init =
           (Inr (lookup c ''wmail''),
            \<lparr> cache = Some c, getting_log = getting_log init @ split_crlf ?d \<rparr>)"
    and c3: "\<forall>q. (lookup c q \<noteq> []) = (\<exists>sp \<in> set (split_crlf ?d). has_resolved_record demo_fs sp q)"
    and c4: "\<forall>q pre sp post bm.
           split_crlf ?d = pre @ sp # post \<and> get_bookmarks demo_fs sp None = Inr bm
           \<and> has_resolved_record demo_fs sp q
           \<and> (\<forall>sp' \<in> set post. \<not> has_resolved_record demo_fs sp' q)
           \<longrightarrow> lookup c q = lookup bm q"
    by blast
  from c4 [rule_format, of "[]" "''/a''" "[''w|/b'']" bma "''mail''"] s bma ra nb bma_mail
  have m: "lookup c ''mail'' = [bookmark_option None ''/a'' ''mail'' (SText ''https://mail.a.com/'')]"
    by (simp add: lookup_def)
  from c4 [rule_format, of "[''/a'']" "''w|/b''" "[]" bmb "''wmail''"] s bmb rb bmb_mail
  have w: "lookup c ''wmail'' = [bookmark_option None ''/b'' ''wmail'' (SText ''https://mail.b.com/'')]"
    by (simp add: lookup_def)
  from c3 [rule_format, of "''wgo''"] s ng have g: "lookup c ''wgo'' = []" by simp
  have e1: "get_entry demo_fs ''/a'' None ''mail'' =
        Inr (Some (bookmark_option None ''/a'' ''mail'' (SText ''https://mail.a.com/'')))"
    using bma bma_mail by (simp add: get_entry_def)
  have e2: "get_entry demo_fs ''w|/b'' None ''wmail'' =
        Inr (Some (bookmark_option None ''/b'' ''wmail'' (SText ''https://mail.b.com/'')))"
    using bmb bmb_mail by (simp add: get_entry_def)
  from c1 s have c1': "call demo_fs ''wmail'' mail_profiles init =
             (Inr (lookup c ''wmail''),
              \<lparr> cache = Some c, getting_log = [''/a'', ''w|/b''] \<rparr>)"
    by (simp add: mail_profiles_def init_def)
  from s e1 e2 c1' m w g show ?thesis by blast
qed

text \<open>
  C2 as stated fails: the one store of this run contains a keyword record with the full
  keyword \<open>go\<close>, the load succeeds (the cache is loaded, and empty), and the lookup of
  \<open>go\<close> returns nothing, because the place of the record is not found.
\<close>

theorem C2_dangling_place_counterexample:
  "has_record demo_fs ''/dangling'' ''go''
   \<and> call demo_fs ''go'' \<lparr> profile_path_data = Some ''/dangling'', firefox_fp = None \<rparr> init
       = (Inr [], \<lparr> cache = Some Map.empty, getting_log = [''/dangling''] \<rparr>)"
  by (simp add: eval_defs demo_defs has_record_def record_of_def)

text \<open>
  C3. The claim: the reload rebuilds the cache over the whole configured sequence of
  profiles. The source reloads one path, the one in the context data of the entry whose
  context menu was opened, which is the path with its prefix taken off. A run with the
  profiles \<open>A|/a\<close> and \<open>B|/b\<close>: after the lazy load \<open>Amail\<close> and \<open>Bmail\<close> are
  found; the context menu of \<open>Amail\<close> offers the reload of \<open>/a\<close>; after that reload
  (which succeeds, and replaces the dictionary) \<open>Bmail\<close> and \<open>Amail\<close> are gone and
  the keyword of \<open>/a\<close> is found as \<open>mail\<close>, without its prefix.
\<close>

theorem C3_reload_reads_one_profile:
  "fst (call demo_fs ''Amail'' prefixed_profiles init) =
     Inr [bookmark_option None ''/a'' ''Amail'' (SText ''https://mail.a.com/'')]
   \<and> context_data (bookmark_option None ''/a'' ''Amail'' (SText ''https://mail.a.com/'')) =
       Some (Bookmark_context ''/a'' None ''Amail'' (SText ''https://mail.a.com/''))
   \<and> action (hd (context_menu
        (Bookmark_context ''/a'' None ''Amail'' (SText ''https://mail.a.com/'')))) =
       Some (Action_reload_cache ''/a'' None)
   \<and> fst (call demo_fs ''Bmail'' prefixed_profiles after_load) =
       Inr [bookmark_option None ''/b'' ''Bmail'' (SText ''https://mail.b.com/'')]
   \<and> fst (reload_cache demo_fs ''/a'' None after_load) = Inr (ExecuteResponse False)
   \<and> getting_log after_reload = [''A|/a'', ''B|/b'', ''/a'']
   \<and> fst (call demo_fs ''Bmail'' prefixed_profiles after_reload) = Inr []
   \<and> fst (call demo_fs ''Amail'' prefixed_profiles after_reload) = Inr []
   \<and> fst (call demo_fs ''mail'' prefixed_profiles after_reload) =
       Inr [bookmark_option None ''/a'' ''mail'' (SText ''https://mail.a.com/'')]"
  by (simp add: eval_defs demo_defs scenario_defs)

text \<open>
  C4, as amended. In a store whose keyword rows have the three columns read and whose
  place rows have the two columns read, reading the profile raises nothing, and the
  dictionary returned is the one of the rows whose place is found, one entry written
  per such row under prefix and keyword, a later row replacing an earlier one of the
  same full keyword. A row whose place is missing is not among them; a row whose
  keyword is empty is.
\<close>

theorem C4_rows_to_entries:
  assumes "split_prefix spec = Inr (prefix, path)" and "fs path = Inr con"
    and "moz_keywords con = Inr rows" and "list_all (well_formed_row con) rows"
  shows "get_bookmarks fs spec fp = Inr (map_of (rev (entries con prefix path fp rows)))
     \<and> length (entries con prefix path fp rows) = length (filter (place_found con) rows)"
  using assms scan_rows_well_formed [OF assms(4), of prefix path fp Map.empty]
  by (simp add: get_bookmarks_def entries_def)

text \<open>
  C4 on the store \<open>/a\<close> read with the prefix \<open>w\<close>: two rows, two entries.
\<close>

theorem C4_rows_to_entries_witness:
  "split_prefix ''w|/a'' = Inr (''w'', ''/a'') \<and> demo_fs ''/a'' = Inr store_a
   \<and> moz_keywords store_a = Inr [[SInt 1, SText ''mail'', SInt 7, SNull],
                                  [SInt 2, SText ''go'', SInt 8, SNull]]
   \<and> list_all (well_formed_row store_a) [[SInt 1, SText ''mail'', SInt 7, SNull],
                                  [SInt 2, SText ''go'', SInt 8, SNull]]
   \<and> get_bookmarks demo_fs ''w|/a'' None =
       Inr (map_of [(''wgo'', bookmark_option None ''/a'' ''wgo'' (SText ''https://go.a.com/'')),
                    (''wmail'', bookmark_option None ''/a'' ''wmail'' (SText ''https://mail.a.com/''))])"
  using C4_rows_to_entries [of "''w|/a''" "''w''" "''/a''" demo_fs store_a
      "[[SInt 1, SText ''mail'', SInt 7, SNull], [SInt 2, SText ''go'', SInt 8, SNull]]" None]
  by (simp add: split_prefix_def demo_defs well_formed_row_def entries_def place_found_def
        row_url_def)

text \<open>
  C4 as stated fails: the keyword row of this store has an empty keyword value and a
  place that exists; it is not skipped, its entry is stored under the empty key.
\<close>

theorem C4_empty_keyword_counterexample:
  "moz_keywords store_empty_keyword = Inr [[SInt 1, SText '''', SInt 3, SNull]]
   \<and> get_entry demo_fs ''/emptykw'' None '''' =
       Inr (Some (bookmark_option None ''/emptykw'' '''' (SText ''https://mail.b.com/'')))"
  by (simp add: eval_defs demo_defs)

text \<open>
  C5. The claim: the prefix derivation succeeds on every string, a string of fewer than
  two characters having no prefix. The source reads \<open>profile_path[1]\<close> first: on the
  empty string and on every string of one character it raises \<open>IndexError\<close>, and so
  does \<open>get_bookmarks\<close>, whatever the file system. A profile string that ends with a
  line break has an empty last line: the handler loads the first profile, raises
  \<open>IndexError\<close> at the empty line, and leaves the cache loaded. On strings of two or
  more characters the derivation is as claimed (\<open>split_prefix_long\<close>).
\<close>

theorem C5_short_profile_string_raises:
  "split_prefix [] = Inl IndexError
   \<and> split_prefix [c] = Inl IndexError
   \<and> get_bookmarks fs [] fp = Inl IndexError
   \<and> get_bookmarks fs [c] fp = Inl IndexError
   \<and> split_crlf (lines2 ''/a'' '''') = [''/a'', '''']
   \<and> fst (call demo_fs ''mail'' trailing_newline init) = Inl IndexError
   \<and> cached (snd (call demo_fs ''mail'' trailing_newline init)) ''mail'' =
       Some (Some (bookmark_option None ''/a'' ''mail'' (SText ''https://mail.a.com/'')))"
  by (simp add: eval_defs demo_defs scenario_defs)

text \<open>
  C6. The claim: every failure to open or query a store becomes one displayable option.
  The handler catches \<open>OperationalError\<close> only (last run: one option, the cache not
  loaded). A keyword table of two columns makes \<open>keyword_data[2]\<close> raise
  \<open>IndexError\<close>, and a file that is not a database raises \<open>DatabaseError\<close>: both
  leave the handler as exceptions, with the cache left loaded and empty.
\<close>

theorem C6_other_store_failures_escape:
  "moz_keywords store_two_columns = Inr [[SInt 1, SText ''go'']]
   \<and> call demo_fs ''go'' \<lparr> profile_path_data = Some ''/twocols'', firefox_fp = None \<rparr> init =
       (Inl IndexError, \<lparr> cache = Some Map.empty, getting_log = [''/twocols''] \<rparr>)
   \<and> demo_fs ''/notadb'' = Inl DatabaseError
   \<and> call demo_fs ''go'' \<lparr> profile_path_data = Some ''/notadb'', firefox_fp = None \<rparr> init =
       (Inl DatabaseError, \<lparr> cache = Some Map.empty, getting_log = [''/notadb''] \<rparr>)
   \<and> call demo_fs ''go'' \<lparr> profile_path_data = Some ''/gone'', firefox_fp = None \<rparr> init =
       (Inr [unable_option ''/gone''], \<lparr> cache = None, getting_log = [''/gone''] \<rparr>)"
  by (simp add: eval_defs demo_defs scenario_defs)

text \<open>
  C7. When the configured profile string is absent (\<open>SettingNotFound\<close>) or empty, the
  query handler returns the one option "Error: No profile data path given" and raises
  nothing, whatever the query and the file system, and the plugin is left as it was:
  from the state of a fresh process the cache is still not loaded and no store was read.
\<close>

theorem C7_no_profiles_configured:
  "call fs query \<lparr> profile_path_data = None, firefox_fp = fp \<rparr> self
     = (Inr [no_profile_option], self)
   \<and> call fs query \<lparr> profile_path_data = Some [], firefox_fp = fp \<rparr> self
     = (Inr [no_profile_option], self)
   \<and> cache (snd (call fs query \<lparr> profile_path_data = None, firefox_fp = fp \<rparr> init)) = None
   \<and> cache (snd (call fs query \<lparr> profile_path_data = Some [], firefox_fp = fp \<rparr> init)) = None
   \<and> getting_log (snd (call fs query \<lparr> profile_path_data = Some [], firefox_fp = fp \<rparr> init)) = []
   \<and> title no_profile_option = ''Error: No profile data path given''
   \<and> context_data no_profile_option = Some NO_PROFILE_DATA_PATH_ERROR"
  by (simp add: call_def init_def no_profile_option_def)

text \<open>
  C8. The claim: a lookup issued before any successful load triggers exactly one load
  attempt, and lookups after a successful load trigger none. The source decides by
  \<open>self.cache is None\<close>, and the dictionary is assigned before the loop (line 91): a
  load that an exception other than \<open>OperationalError\<close> cuts short leaves the cache
  loaded although no load has succeeded. Two runs from a fresh plugin. A profile string
  that ends with a line break: the first query reads \<open>/a\<close> and the empty line and
  raises \<open>IndexError\<close>; the second query reads no store (the log is as it was, the
  plugin unchanged) and is answered from the entries of \<open>/a\<close>. A second profile that is
  not a database: the first query raises \<open>DatabaseError\<close>, and the same query again,
  and any sequence of queries after it, reads nothing more. From the states \<open>None\<close> and
  loaded the source does what the claim says (\<open>lazy_load_once\<close>).
\<close>

theorem C8_no_load_attempt_after_escaped_exception:
  "cache init = None
   \<and> fst (call demo_fs ''mail'' trailing_newline init) = Inl IndexError
   \<and> getting_log (snd (call demo_fs ''mail'' trailing_newline init)) = [''/a'', []]
   \<and> call demo_fs ''mail'' trailing_newline (snd (call demo_fs ''mail'' trailing_newline init)) =
       (Inr [bookmark_option None ''/a'' ''mail'' (SText ''https://mail.a.com/'')],
        snd (call demo_fs ''mail'' trailing_newline init))
   \<and> getting_log (snd (call demo_fs ''mail'' trailing_newline
         (snd (call demo_fs ''mail'' trailing_newline init)))) = [''/a'', []]
   \<and> fst (call demo_fs ''mail'' broken_second init) = Inl DatabaseError
   \<and> getting_log (snd (call demo_fs ''mail'' broken_second init)) = [''/a'', ''/notadb'']
   \<and> getting_log (snd (call demo_fs ''mail'' broken_second
         (snd (call demo_fs ''mail'' broken_second init)))) = [''/a'', ''/notadb'']
   \<and> calls demo_fs [(''mail'', broken_second), (''go'', broken_second)]
         (snd (call demo_fs ''mail'' broken_second init)) =
       snd (call demo_fs ''mail'' broken_second init)"
  by (simp add: eval_defs demo_defs scenario_defs)



text \<open>
  C10. The invariant holds of a fresh plugin and is kept by the query handler and by the
  reload. Under it a single option returned by the handler is one of the two error
  options or an entry titled with the query; every entry the cache gives for a key is
  titled with that key; and an entry read from a store under \<open>k\<close> comes from a
  keyword row with full keyword \<open>k\<close>: its subtitle is column 1 of the place row found
  for that row.
\<close>

theorem C10_cache_invariant:
  assumes "cache_inv (cache self)"
  shows "cache_inv (cache init)
     \<and> cache_inv (cache (snd (call fs q st self)))
     \<and> cache_inv (cache (snd (reload_cache fs path fp self)))
     \<and> (\<forall>opt. fst (call fs q st self) = Inr [opt] \<longrightarrow>
           opt = no_profile_option \<or> (\<exists>p. opt = unable_option p) \<or> entry_ok q opt)
     \<and> (\<forall>c k opt. cache self = Some c \<and> lookup c k = [opt] \<longrightarrow>
           title opt = k \<and> entry_ok k opt)
     \<and> (\<forall>bm k opt. get_bookmarks fs spec fp = Inr bm \<and> bm k = Some opt \<longrightarrow>
           (\<exists>prefix dir con rows kd place.
              split_prefix spec = Inr (prefix, dir) \<and> fs dir = Inr con
              \<and> moz_keywords con = Inr rows \<and> kd \<in> set rows
              \<and> record_of prefix k kd \<and> moz_places con (kd ! 2) = Inr (Some place)
              \<and> 2 \<le> length place
              \<and> title opt = k \<and> sub opt = Some (place ! 1)))"
proof (intro conjI)
  show "cache_inv (cache init)" by (simp add: init_def cache_inv_def)
  show "cache_inv (cache (snd (call fs q st self)))" by (rule call_inv [OF assms])
  show "cache_inv (cache (snd (reload_cache fs path fp self)))" by (rule reload_inv [OF assms])
  show "\<forall>opt. fst (call fs q st self) = Inr [opt] \<longrightarrow>
           opt = no_profile_option \<or> (\<exists>p. opt = unable_option p) \<or> entry_ok q opt"
    using call_result [OF assms] by blast
  show "\<forall>c k opt. cache self = Some c \<and> lookup c k = [opt] \<longrightarrow>
           title opt = k \<and> entry_ok k opt"
  proof (intro allI impI, elim conjE)
    fix c k opt assume "cache self = Some c" and "lookup c k = [opt]"
    with assms have "entry_ok k opt" by (simp add: lookup_entry_ok)
    then show "title opt = k \<and> entry_ok k opt" by (simp add: entry_ok_def)
  qed
  show "\<forall>bm k opt. get_bookmarks fs spec fp = Inr bm \<and> bm k = Some opt \<longrightarrow>
           (\<exists>prefix dir con rows kd place.
              split_prefix spec = Inr (prefix, dir) \<and> fs dir = Inr con
              \<and> moz_keywords con = Inr rows \<and> kd \<in> set rows
              \<and> record_of prefix k kd \<and> moz_places con (kd ! 2) = Inr (Some place)
              \<and> 2 \<le> length place
              \<and> title opt = k \<and> sub opt = Some (place ! 1))"
  proof (intro allI impI, elim conjE)
    fix bm k opt
    assume "get_bookmarks fs spec fp = Inr bm" and "bm k = Some opt"
    from get_bookmarks_entry [OF this] obtain prefix dir con rows kd place where
      "split_prefix spec = Inr (prefix, dir)" "fs dir = Inr con" "moz_keywords con = Inr rows"
      "kd \<in> set rows" "record_of prefix k kd" "moz_places con (kd ! 2) = Inr (Some place)"
      "2 \<le> length place" "opt = bookmark_option fp dir k (place ! 1)"
      by blast
    then show "\<exists>prefix dir con rows kd place.
              split_prefix spec = Inr (prefix, dir) \<and> fs dir = Inr con
              \<and> moz_keywords con = Inr rows \<and> kd \<in> set rows
              \<and> record_of prefix k kd \<and> moz_places con (kd ! 2) = Inr (Some place)
              \<and> 2 \<le> length place
              \<and> title opt = k \<and> sub opt = Some (place ! 1)"
      by (auto simp: bookmark_option_def)
  qed
qed

text \<open>
  C10 from the fresh plugin, on the two profiles of the specification's scenario.
\<close>

theorem C10_cache_invariant_witness:
  "cache_inv (cache init)
   \<and> cache_inv (cache (snd (call demo_fs ''wmail'' mail_profiles init)))
   \<and> cache_inv (cache (snd (reload_cache demo_fs ''/a'' None init)))
   \<and> fst (call demo_fs ''wmail'' mail_profiles init) =
        Inr [bookmark_option None ''/b'' ''wmail'' (SText ''https://mail.b.com/'')]
   \<and> entry_ok ''wmail'' (bookmark_option None ''/b'' ''wmail'' (SText ''https://mail.b.com/''))
   \<and> title (bookmark_option None ''/b'' ''wmail'' (SText ''https://mail.b.com/'')) = ''wmail''
   \<and> sub (bookmark_option None ''/b'' ''wmail'' (SText ''https://mail.b.com/''))
        = Some (SText ''https://mail.b.com/'')"
proof -
  have i: "cache_inv (cache init)" by (simp add: init_def cache_inv_def)
  have r: "fst (call demo_fs ''wmail'' mail_profiles init) =
        Inr [bookmark_option None ''/b'' ''wmail'' (SText ''https://mail.b.com/'')]"
    by (simp add: eval_defs demo_defs scenario_defs)
  note t = C10_cache_invariant [OF i, where fs = demo_fs and q = "''wmail''"
      and st = mail_profiles and path = "''/a''" and fp = None]
  from t have 1: "cache_inv (cache (snd (call demo_fs ''wmail'' mail_profiles init)))"
    by (rule conjunct2 [THEN conjunct1])
  from t have 2: "cache_inv (cache (snd (reload_cache demo_fs ''/a'' None init)))"
    by (rule conjunct2 [THEN conjunct2, THEN conjunct1])
  from t have "\<forall>opt. fst (call demo_fs ''wmail'' mail_profiles init) = Inr [opt] \<longrightarrow>
           opt = no_profile_option \<or> (\<exists>p. opt = unable_option p) \<or> entry_ok ''wmail'' opt"
    by (rule conjunct2 [THEN conjunct2, THEN conjunct2, THEN conjunct1])
  with r have "bookmark_option None ''/b'' ''wmail'' (SText ''https://mail.b.com/'') = no_profile_option
     \<or> (\<exists>p. bookmark_option None ''/b'' ''wmail'' (SText ''https://mail.b.com/'') = unable_option p)
     \<or> entry_ok ''wmail'' (bookmark_option None ''/b'' ''wmail'' (SText ''https://mail.b.com/''))"
    by blast
  then have 3: "entry_ok ''wmail'' (bookmark_option None ''/b'' ''wmail'' (SText ''https://mail.b.com/''))"
    by (simp add: bookmark_option_def no_profile_option_def unable_option_def)
  have 4: "title (bookmark_option None ''/b'' ''wmail'' (SText ''https://mail.b.com/'')) = ''wmail''"
    "sub (bookmark_option None ''/b'' ''wmail'' (SText ''https://mail.b.com/''))
        = Some (SText ''https://mail.b.com/'')"
    by (simp_all add: bookmark_option_def)
  from i 1 2 r 3 4 show ?thesis by (intro conjI)
qed

end
